theory Spec2Isabelle
  imports Main "HOL-Library.Multiset"
begin

section \<open>Data of the orchestration core (bcml/__main__.py)\<close>

text \<open>
  A Python exception object, as far as \<open>__main__.py\<close> looks at it: its class, the text
  \<open>str(err)\<close>, the optional attribute \<open>error_text\<close>, and the exception it was built from
  (\<open>MergeError(err)\<close>). Values of this type are instances of \<open>Exception\<close>, the class every
  \<open>except Exception\<close> clause of the file catches.
\<close>

datatype exn =
  Exn (exn_class: string) (exn_str: string) (error_text: "string option") (exn_arg: "exn option")

text \<open>
  Modelled from the spec: the class \<open>MergeError\<close> is imported from \<open>bcml.util\<close>, which is
  not under src/. It is the "merge failed" condition that carries the original cause:
  an exception of its own class, built from the caught one.
\<close>

definition MergeError :: "exn \<Rightarrow> exn" where
  "MergeError err = Exn ''MergeError'' (exn_str err) None (Some err)"

definition IndexError :: exn where
  "IndexError = Exn ''IndexError'' ''list index out of range'' None None"

definition AttributeError :: exn where
  "AttributeError = Exn ''AttributeError'' ''error_text'' None None"

text \<open>JSON-like values that cross the API, and the dictionary \<open>status_run\<close> returns.\<close>

datatype pyval = PNone | PBool bool | PInt int | PStr string

type_synonym envelope = "(string \<times> pyval) list"

type_synonym options = "(string \<times> string list) list"

text \<open>
  A merger instance: its class constants \<open>NAME\<close> and \<open>friendly_name\<close>, and the pool that
  \<open>set_pool\<close> stored in it.
\<close>

record merger =
  NAME :: string
  friendly_name :: string
  pool :: "nat option"

text \<open>
  A \<open>BcmlMod\<close>: its folder, its priority, and the names of the mergers that logged
  changes for it (the spec's data model of a Mod).
\<close>

record bcml_mod =
  path :: string
  priority :: int
  logs :: "string list"

text \<open>
  Everything the file does to the outside world is a call into a collaborator
  (\<open>install\<close>, \<open>mergers\<close>, \<open>util\<close>, \<open>shutil\<close>, \<open>multiprocessing\<close>, the log file). The model
  records each such call, in order, as an event; the history of events is the state
  that the operations thread through. \<open>print\<close> and \<open>util.vprint\<close> are left out.
\<close>

datatype event =
    PoolOpen nat
  | PoolClose nat
  | InstallMod string options "string list option" "int option" nat "exn + bcml_mod"
  | PerformMerge merger
  | ChangePriority bcml_mod int
  | Rmtree string
  | LinkMasterMod
  | RefreshMerges
  | RefreshMasterExport
  | LogWrite string

text \<open>
  The collaborators themselves are not under src/, so what they answer is a parameter:
  an environment of functions that may depend on the whole history so far.
  \<open>raises\<close> says whether an external call fails, and with which exception.
\<close>

record env =
  get_mergers :: "merger list"
  sort_mergers :: "merger list \<Rightarrow> merger list"
  install_result ::
    "event list \<Rightarrow> string \<Rightarrow> options \<Rightarrow> string list option \<Rightarrow> int option \<Rightarrow> exn + bcml_mod"
  raises :: "event list \<Rightarrow> event \<Rightarrow> exn option"
  create_file_dialog :: "event list \<Rightarrow> string list option"
  get_installed_mods :: "event list \<Rightarrow> bcml_mod list"
  master_modpack_dir :: string
  master_modpack_exists :: "event list \<Rightarrow> bool"
  options_json :: "event list \<Rightarrow> string \<Rightarrow> (exn + options) option"
  format_exc :: "exn \<Rightarrow> string"

text \<open>A computation: from the history to a result or a raised exception, and the new history.\<close>

type_synonym 'a run = "event list \<Rightarrow> (exn + 'a) \<times> event list"

definition returnE :: "'a \<Rightarrow> 'a run" where
  "returnE v h = (Inr v, h)"

definition raiseE :: "exn \<Rightarrow> 'a run" where
  "raiseE e h = (Inl e, h)"

definition bindE :: "'a run \<Rightarrow> ('a \<Rightarrow> 'b run) \<Rightarrow> 'b run" where
  "bindE m f h = (case m h of (Inl e, h1) \<Rightarrow> (Inl e, h1) | (Inr v, h1) \<Rightarrow> f v h1)"

text \<open>An external call that returns nothing: recorded, then it raises or not.\<close>

definition call :: "env \<Rightarrow> event \<Rightarrow> unit run" where
  "call env ev h =
     (case raises env h ev of None \<Rightarrow> (Inr (), h @ [ev]) | Some e \<Rightarrow> (Inl e, h @ [ev]))"

section \<open>The Result Envelope: \<open>win_or_lose\<close>\<close>

definition getattr_error_text :: "exn \<Rightarrow> string \<Rightarrow> string" where
  "getattr_error_text err dflt = (case error_text err of Some t \<Rightarrow> t | None \<Rightarrow> dflt)"

definition setattr_error_text :: "exn \<Rightarrow> string \<Rightarrow> exn" where
  "setattr_error_text err t = Exn (exn_class err) (exn_str err) (Some t) (exn_arg err)"

definition hasattr_error_text :: "exn \<Rightarrow> bool" where
  "hasattr_error_text err = (error_text err \<noteq> None)"

text \<open>
  \<open>status_run\<close>, the function \<open>win_or_lose(func)\<close> returns. The value \<open>func\<close> returns is
  dropped. In the handler, \<open>getattr(err, "error_text")\<close> without a default would raise
  \<open>AttributeError\<close> on a missing attribute, and opening or writing the log may fail;
  both leave the handler as an exception.
\<close>

definition win_or_lose :: "env \<Rightarrow> 'a run \<Rightarrow> envelope run" where
  "win_or_lose env func h =
     (case func h of
        (Inr v, h1) \<Rightarrow> (Inr [(''success'', PBool True)], h1)
      | (Inl err, h1) \<Rightarrow>
          (let err' = setattr_error_text err (getattr_error_text err (format_exc env err)) in
           bindE (call env (LogWrite ([CHR 0x0A] @ exn_str err' @ [CHR 0x0A])))
             (\<lambda>_. case error_text err' of
                    None \<Rightarrow> raiseE AttributeError
                  | Some t \<Rightarrow>
                      returnE [(''error'', PStr t),
                               (''error_text'', PBool (hasattr_error_text err'))]) h1))"

section \<open>The mergers a mod touches\<close>

text \<open>
  Modelled from the spec: \<open>Merger.is_mod_logged\<close>, \<open>Merger.set_pool\<close>, \<open>BcmlMod.mergers\<close>
  and \<open>mergers.get_mergers_for_mod\<close> are not under src/. A merger is affected by a mod
  when it is among the mergers that logged changes for the mod; the mergers of a mod
  are the registered mergers that are affected by it, each a fresh instance; \<open>set_pool\<close>
  stores the pool in the instance.
\<close>

definition is_mod_logged :: "merger \<Rightarrow> bcml_mod \<Rightarrow> bool" where
  "is_mod_logged m md = (NAME m \<in> set (logs md))"

definition set_pool :: "merger \<Rightarrow> nat \<Rightarrow> merger" where
  "set_pool m p = m\<lparr>pool := Some p\<rparr>"

definition new_instance :: "merger \<Rightarrow> merger" where
  "new_instance m = m\<lparr>pool := None\<rparr>"

definition all_mergers :: "env \<Rightarrow> merger list" where
  "all_mergers env = map new_instance (get_mergers env)"

definition get_mergers_for_mod :: "env \<Rightarrow> bcml_mod \<Rightarrow> merger list" where
  "get_mergers_for_mod env md = filter (\<lambda>m. is_mod_logged m md) (all_mergers env)"

text \<open>
  A Python set of merger instances is a list in insertion order. The instances are
  hashed by identity and every one is freshly built, so adding instances whose
  \<open>NAME\<close> is not in the set yet appends them. The order in which Python iterates over
  a set is unspecified; no statement below depends on it.

  \<open>add_by_name s ms\<close> is \<open>s.update({m for m in ms if m.NAME not in {m.NAME for m in s}})\<close>.
\<close>

definition add_by_name :: "merger list \<Rightarrow> merger list \<Rightarrow> merger list" where
  "add_by_name s ms = s @ filter (\<lambda>m. NAME m \<notin> set (map NAME s)) ms"

section \<open>Pools, installs and merger runs\<close>

fun is_PoolOpen :: "event \<Rightarrow> bool" where
  "is_PoolOpen (PoolOpen _) = True"
| "is_PoolOpen _ = False"

text \<open>
  \<open>with Pool(maxtasksperchild=1000) as pool: body\<close>. Every pool is a new object, named
  here by the number of pools opened before it; leaving the block closes it, also when
  the body raised.
\<close>

definition with_pool :: "env \<Rightarrow> (nat \<Rightarrow> 'a run) \<Rightarrow> 'a run" where
  "with_pool env body h =
     (let p = length (filter is_PoolOpen h) in
      case call env (PoolOpen p) h of
        (Inl e, h0) \<Rightarrow> (Inl e, h0)
      | (Inr _, h0) \<Rightarrow> (case body p h0 of (r, h1) \<Rightarrow> (r, h1 @ [PoolClose p])))"

text \<open>\<open>install.install_mod(path, options=, selects=, insert_priority=, pool=)\<close>.\<close>

definition install_install_mod ::
  "env \<Rightarrow> string \<Rightarrow> options \<Rightarrow> string list option \<Rightarrow> int option \<Rightarrow> nat \<Rightarrow> bcml_mod run" where
  "install_install_mod env pth opts sel prio p h =
     (let r = install_result env h pth opts sel prio
      in (r, h @ [InstallMod pth opts sel prio p r]))"

text \<open>\<open>for merger in ms: merger.set_pool(pool); merger.perform_merge()\<close>.\<close>

fun perform_all :: "env \<Rightarrow> nat \<Rightarrow> merger list \<Rightarrow> unit run" where
  "perform_all env p [] = returnE ()"
| "perform_all env p (m # ms) =
     bindE (call env (PerformMerge (set_pool m p))) (\<lambda>_. perform_all env p ms)"

text \<open>\<open>try: body except Exception as err: raise MergeError(err)\<close>.\<close>

definition try_MergeError :: "'a run \<Rightarrow> 'a run" where
  "try_MergeError body h =
     (case body h of (Inl err, h1) \<Rightarrow> (Inl (MergeError err), h1) | (Inr v, h1) \<Rightarrow> (Inr v, h1))"

section \<open>\<open>Api.install_mod\<close>\<close>

text \<open>
  The parameter dictionaries come from the front end; each is a record of the keys the
  operation reads. The operations are modelled as their bodies are written; the
  decorator \<open>install.refresher\<close> is not under src/.
\<close>

record install_params =
  mods_p :: "string list"
  options_p :: options
  selects_p :: "(string \<times> string list) list option"

fun install_each ::
  "env \<Rightarrow> options \<Rightarrow> (string \<times> string list) list \<Rightarrow> nat \<Rightarrow> string list \<Rightarrow> bcml_mod list run" where
  "install_each env opts selects p [] = returnE []"
| "install_each env opts selects p (m # ms) =
     bindE (install_install_mod env m opts (map_of selects m) None p) (\<lambda>md.
     bindE (install_each env opts selects p ms) (\<lambda>mds. returnE (md # mds)))"

definition merger_set_of :: "env \<Rightarrow> bcml_mod list \<Rightarrow> merger list" where
  "merger_set_of env mods =
     foldl (\<lambda>merger_set md. add_by_name merger_set (get_mergers_for_mod env md)) [] mods"

definition install_mod :: "env \<Rightarrow> install_params \<Rightarrow> unit run" where
  "install_mod env params =
     with_pool env (\<lambda>p.
       bindE (install_each env (options_p params)
                (case selects_p params of None \<Rightarrow> [] | Some s \<Rightarrow> s) p (mods_p params))
         (\<lambda>mods. try_MergeError
            (perform_all env p (sort_mergers env (merger_set_of env mods)))))"

section \<open>\<open>Api.update_mod\<close>\<close>

definition file_pick :: "env \<Rightarrow> event list \<Rightarrow> string list" where
  "file_pick env h =
     (case create_file_dialog env h of None \<Rightarrow> [] | Some fs \<Rightarrow> if fs = [] then [] else fs)"

definition load_options :: "env \<Rightarrow> bcml_mod \<Rightarrow> options run" where
  "load_options env md h =
     (case options_json env h (path md) of
        None \<Rightarrow> (Inr [], h)
      | Some (Inl e) \<Rightarrow> (Inl e, h)
      | Some (Inr opts) \<Rightarrow> (Inr opts, h))"

definition update_mod :: "env \<Rightarrow> bcml_mod \<Rightarrow> unit run" where
  "update_mod env md h =
     (case file_pick env h of
        [] \<Rightarrow> (Inr (), h)
      | update_file # _ \<Rightarrow>
          bindE (load_options env md) (\<lambda>opts.
            let remergers = get_mergers_for_mod env md in
            bindE (call env (Rmtree (path md))) (\<lambda>_.
              with_pool env (\<lambda>p.
                bindE (install_install_mod env update_file opts None (Some (priority md)) p)
                  (\<lambda>new_mod.
                     perform_all env p
                       (add_by_name remergers (get_mergers_for_mod env new_mod)))))) h)"

section \<open>\<open>Api.apply_queue\<close>\<close>

record move =
  move_mod :: bcml_mod
  move_priority :: int

record queued =
  q_path :: string
  q_options :: options
  q_priority :: int

record queue_params =
  moves :: "move list"
  installs :: "queued list"

text \<open>\<open>s.replace(sub, "")\<close>: every occurrence of \<open>sub\<close>, from the left, is dropped.\<close>

function remove_all :: "string \<Rightarrow> string \<Rightarrow> string" where
  "remove_all sub [] = []"
| "remove_all sub (c # cs) =
     (if sub \<noteq> [] \<and> take (length sub) (c # cs) = sub
      then remove_all sub (drop (length sub) (c # cs))
      else c # remove_all sub cs)"
  by pat_completeness auto
termination
  by (relation "measure (\<lambda>(sub, s). length s)") (auto simp: Suc_diff_le)

text \<open>
  Modelled from the spec: \<open>BcmlMod.change_priority\<close> is not under src/; it is the call
  that reassigns the priority of the mod object, which the list \<open>mods\<close> then holds.
\<close>

fun apply_moves :: "env \<Rightarrow> move list \<Rightarrow> bcml_mod list \<Rightarrow> bcml_mod list run" where
  "apply_moves env [] mods = returnE mods"
| "apply_moves env (mv # mvs) mods =
     bindE (call env (ChangePriority (move_mod mv) (move_priority mv))) (\<lambda>_.
       apply_moves env mvs (mods @ [(move_mod mv)\<lparr>priority := move_priority mv\<rparr>]))"

text \<open>
  The two nested loops that fill \<open>remergers\<close>: for every mod, every registered merger
  that logged the mod and whose \<open>NAME\<close> is not in the set yet is added.
\<close>

definition remergers_of :: "env \<Rightarrow> bcml_mod list \<Rightarrow> merger list" where
  "remergers_of env mods =
     foldl (\<lambda>remergers md.
              foldl (\<lambda>remergers m.
                       if is_mod_logged m md \<and> NAME m \<notin> set (map NAME remergers)
                       then remergers @ [m] else remergers)
                remergers (all_mergers env))
       [] mods"

text \<open>
  The loop over \<open>params["installs"]\<close>. The block that computes \<open>remergers\<close> and runs the
  sorted mergers is indented under the \<open>for\<close>, so it is part of the loop body.
\<close>

fun install_queue :: "env \<Rightarrow> nat \<Rightarrow> queued list \<Rightarrow> bcml_mod list \<Rightarrow> unit run" where
  "install_queue env p [] mods = returnE ()"
| "install_queue env p (i # rest) mods =
     bindE (install_install_mod env (remove_all ''QUEUE'' (q_path i)) (q_options i) None
              (Some (q_priority i)) p)
       (\<lambda>md. bindE (perform_all env p (sort_mergers env (remergers_of env (mods @ [md]))))
          (\<lambda>_. install_queue env p rest (mods @ [md])))"

definition apply_queue :: "env \<Rightarrow> queue_params \<Rightarrow> unit run" where
  "apply_queue env params =
     bindE (apply_moves env (moves params) []) (\<lambda>mods.
     bindE (with_pool env (\<lambda>p. install_queue env p (installs params) mods)) (\<lambda>_.
       call env RefreshMasterExport))"

section \<open>\<open>Api.remerge\<close>\<close>

definition remerge :: "env \<Rightarrow> string \<Rightarrow> unit run" where
  "remerge env name =
     try_MergeError (\<lambda>h.
       if get_installed_mods env h = [] then
         (if master_modpack_exists env h
          then bindE (call env (Rmtree (master_modpack_dir env))) (\<lambda>_. call env LinkMasterMod) h
          else returnE () h)
       else if name = ''all'' then call env RefreshMerges h
       else
         (case filter (\<lambda>m. friendly_name m = name) (all_mergers env) of
            [] \<Rightarrow> raiseE IndexError h
          | m # _ \<Rightarrow> bindE (call env (PerformMerge m)) (\<lambda>_. call env RefreshMasterExport) h))"

section \<open>Reading a history\<close>

text \<open>The mergers whose \<open>perform_merge\<close> was invoked, and the mods that were installed.\<close>

fun performed :: "event list \<Rightarrow> merger list" where
  "performed [] = []"
| "performed (PerformMerge m # evs) = m # performed evs"
| "performed (_ # evs) = performed evs"

fun installed :: "event list \<Rightarrow> bcml_mod list" where
  "installed [] = []"
| "installed (InstallMod _ _ _ _ _ (Inr md) # evs) = md # installed evs"
| "installed (_ # evs) = installed evs"

text \<open>
  The exceptions that merger runs raised among the events \<open>evs\<close> that followed the
  history \<open>h\<close>: a run is a \<open>perform_merge\<close> call or the call of \<open>install.refresh_merges\<close>.
\<close>

fun merge_failures :: "env \<Rightarrow> event list \<Rightarrow> event list \<Rightarrow> exn list" where
  "merge_failures env h [] = []"
| "merge_failures env h (PerformMerge m # evs) =
     (case raises env h (PerformMerge m) of Some e \<Rightarrow> [e] | None \<Rightarrow> [])
     @ merge_failures env (h @ [PerformMerge m]) evs"
| "merge_failures env h (RefreshMerges # evs) =
     (case raises env h RefreshMerges of Some e \<Rightarrow> [e] | None \<Rightarrow> [])
     @ merge_failures env (h @ [RefreshMerges]) evs"
| "merge_failures env h (ev # evs) = merge_failures env (h @ [ev]) evs"

section \<open>The ArgumentRelay: \<open>oneclick_listener\<close>\<close>

text \<open>
  What \<open>conn.recv(1024)\<close> gives: bytes, or \<open>ConnectionResetError\<close>. A connection is the
  list of what its successive reads give; when the list is used up the peer has closed,
  and \<open>recv\<close> returns the empty bytes.
\<close>

datatype recv = Data string | ConnectionResetError

datatype sock_event =
    Bind
  | Connect
  | Send string
  | CloseSock
  | Listen
  | Accept
  | ProcessArg string
  | CloseConn

datatype outcome = Exited int | Raised exn | AwaitingAccept

text \<open>
  The network and the handlers, which are not under src/: whether the bind succeeds,
  the argument text of this process, what \<open>bytes.decode("utf8")\<close> gives, and whether
  \<open>_oneclick.process_arg\<close> raises.
\<close>

record net =
  bind_ok :: bool
  argument :: string
  decode_utf8 :: "string \<Rightarrow> exn + string"
  process_arg_raises :: "string \<Rightarrow> exn option"

text \<open>
  Modelled from the spec: \<open>_oneclick.send_arg\<close> is not under src/. The secondary
  "connects as a client to the same endpoint, writes its own argument text plus the
  terminator, closes".
\<close>

definition send_arg :: "net \<Rightarrow> sock_event list" where
  "send_arg nt = [Connect, Send (argument nt), Send ''.'', CloseSock]"

text \<open>The inner \<open>while True\<close> over one connection: what was raised, if anything, and the events.\<close>

fun read_conn :: "net \<Rightarrow> recv list \<Rightarrow> exn option \<times> sock_event list" where
  "read_conn nt [] = (None, [])"
| "read_conn nt (ConnectionResetError # rs) = (None, [])"
| "read_conn nt (Data d # rs) =
     (if d = [] \<or> d = ''.'' then (None, [])
      else
        (case decode_utf8 nt d of
           Inl e \<Rightarrow> (Some e, [])
         | Inr s \<Rightarrow>
             (case process_arg_raises nt s of
                Some e \<Rightarrow> (Some e, [ProcessArg s])
              | None \<Rightarrow> (case read_conn nt rs of (r, evs) \<Rightarrow> (r, ProcessArg s # evs)))))"

text \<open>
  The outer \<open>while True\<close>, over the connections that arrive. \<open>with conn\<close> closes the
  connection however the inner loop ends. When no connection is left the loop is
  blocked in \<open>sock.accept()\<close>.
\<close>

fun accept_loop :: "net \<Rightarrow> recv list list \<Rightarrow> outcome \<times> sock_event list" where
  "accept_loop nt [] = (AwaitingAccept, [])"
| "accept_loop nt (c # cs) =
     (case read_conn nt c of
        (Some e, evs) \<Rightarrow> (Raised e, Accept # evs @ [CloseConn])
      | (None, evs) \<Rightarrow>
          (case accept_loop nt cs of (out, evs') \<Rightarrow> (out, Accept # evs @ CloseConn # evs')))"

definition oneclick_listener :: "net \<Rightarrow> recv list list \<Rightarrow> outcome \<times> sock_event list" where
  "oneclick_listener nt conns =
     (if \<not> bind_ok nt then (Exited 0, Bind # send_arg nt)
      else
        (case accept_loop nt conns of
           (Raised e, evs) \<Rightarrow> (Raised e, Bind # Listen # evs @ [CloseSock])
         | (out, evs) \<Rightarrow> (out, Bind # Listen # evs)))"

text \<open>
  The reads that the spec calls chunks: bytes that are neither empty (the peer closed)
  nor the lone terminator; and the text of a chunk.
\<close>

fun is_chunk :: "recv \<Rightarrow> bool" where
  "is_chunk (Data d) = (d \<noteq> [] \<and> d \<noteq> ''.'')"
| "is_chunk ConnectionResetError = False"

fun chunk_text :: "net \<Rightarrow> recv \<Rightarrow> string" where
  "chunk_text nt (Data d) = (case decode_utf8 nt d of Inr s \<Rightarrow> s | Inl _ \<Rightarrow> [])"
| "chunk_text nt ConnectionResetError = []"

fun decodes :: "net \<Rightarrow> recv \<Rightarrow> bool" where
  "decodes nt (Data d) =
     (case decode_utf8 nt d of Inr s \<Rightarrow> process_arg_raises nt s = None | Inl _ \<Rightarrow> False)"
| "decodes nt ConnectionResetError = True"

section \<open>Example environments\<close>

text \<open>
  Two registered mergers; a package named \<open>A.bnp\<close> is logged by the first, any other by
  the second; no external call fails. In \<open>failing_env\<close> the first merger's
  \<open>perform_merge\<close> raises.
\<close>

definition M1 :: merger where
  "M1 = \<lparr>NAME = ''m1'', friendly_name = ''Merger 1'', pool = None\<rparr>"

definition M2 :: merger where
  "M2 = \<lparr>NAME = ''m2'', friendly_name = ''Merger 2'', pool = None\<rparr>"

definition example_env :: env where
  "example_env =
     \<lparr>get_mergers = [M1, M2],
      sort_mergers = rev,
      install_result = (\<lambda>h pth opts sel prio.
         Inr \<lparr>path = pth,
              priority = (case prio of Some n \<Rightarrow> n | None \<Rightarrow> int (length h)),
              logs = (if pth = ''A.bnp'' then [''m1''] else [''m2''])\<rparr>),
      raises = (\<lambda>h ev. None),
      create_file_dialog = (\<lambda>h. Some [''B.bnp'']),
      get_installed_mods = installed,
      master_modpack_dir = ''master'',
      master_modpack_exists = (\<lambda>h. False),
      options_json = (\<lambda>h pth. None),
      format_exc = (\<lambda>err. ''Traceback (most recent call last)'')\<rparr>"

definition boom :: exn where
  "boom = Exn ''ValueError'' ''bad data'' None None"



definition mod_A :: bcml_mod where
  "mod_A = \<lparr>path = ''mods/A'', priority = 100, logs = [''m1'']\<rparr>"

definition example_net :: net where
  "example_net =
     \<lparr>bind_ok = True, argument = ''bcml:install'',
      decode_utf8 = Inr, process_arg_raises = (\<lambda>s. None)\<rparr>"

definition two_mods :: install_params where
  "two_mods = \<lparr>mods_p = [''A.bnp'', ''B.bnp''], options_p = [], selects_p = None\<rparr>"

definition one_installed :: "event list" where
  "one_installed = [InstallMod ''A.bnp'' [] None None 0 (Inr mod_A)]"

definition two_installs :: queue_params where
  "two_installs =
     \<lparr>moves = [],
      installs = [\<lparr>q_path = ''QUEUEA.bnp'', q_options = [], q_priority = 3\<rparr>,
                  \<lparr>q_path = ''QUEUEB.bnp'', q_options = [], q_priority = 4\<rparr>]\<rparr>"

definition one_move :: queue_params where
  "one_move = \<lparr>moves = [\<lparr>move_mod = mod_A, move_priority = 7\<rparr>], installs = []\<rparr>"

definition mod_B :: bcml_mod where
  "mod_B = \<lparr>path = ''mods/B'', priority = 200, logs = [''m2'']\<rparr>"

definition only_B :: install_params where
  "only_B = \<lparr>mods_p = [''B.bnp''], options_p = [], selects_p = None\<rparr>"

definition queue_B :: queue_params where
  "queue_B =
     \<lparr>moves = [\<lparr>move_mod = mod_B, move_priority = 7\<rparr>],
      installs = [\<lparr>q_path = ''QUEUEB.bnp'', q_options = [], q_priority = 4\<rparr>]\<rparr>"

definition three_conns :: "recv list list" where
  "three_conns = [[Data ''ab'', Data ''cd'', Data ''.'', Data ''zz''],
                  [Data ''e'', ConnectionResetError, Data ''f''],
                  [Data ''g'']]"

section \<open>The Result Envelope\<close>

text \<open>
  C3 (as amended). When the wrapped operation completes without raising, the caller
  receives exactly the success indicator \<open>{"success": True}\<close>, and the history is the one
  the operation left; the value the operation returned is not part of the envelope.
\<close>

theorem win_or_lose_success:
  "func h = (Inr v, h') \<Longrightarrow> win_or_lose env func h = (Inr [(''success'', PBool True)], h')"
  by (simp add: win_or_lose_def)

text \<open>The theorem at an operation that returns 5.\<close>

theorem win_or_lose_success_witness:
  "returnE (PInt 5) [] = (Inr (PInt 5), [])
   \<and> win_or_lose example_env (returnE (PInt 5)) [] = (Inr [(''success'', PBool True)], [])"
proof -
  have r: "returnE (PInt 5) [] = (Inr (PInt 5), [])" by (simp add: returnE_def)
  show ?thesis
    using r win_or_lose_success [of "returnE (PInt 5)" "[]" "PInt 5" "[]" example_env] by simp
qed

text \<open>
  C3 as stated fails: an operation that returns 5 gets the envelope \<open>{"success": True}\<close>,
  in which no key holds 5, and it is the very envelope an operation returning 7 gets.
\<close>

theorem win_or_lose_drops_value:
  "fst (win_or_lose example_env (returnE (PInt 5)) []) = Inr [(''success'', PBool True)]
   \<and> PInt 5 \<notin> snd ` set [(''success'', PBool True)]
   \<and> win_or_lose example_env (returnE (PInt 5)) [] = win_or_lose example_env (returnE (PInt 7)) []"
  by (simp add: win_or_lose_def returnE_def)

text \<open>
  C10 (as amended). When the wrapped operation raises and the wrapper returns an
  envelope, the trace-availability flag is true and the error field is the exception's
  own \<open>error_text\<close> when it has one, and the formatted traceback otherwise. So the error
  field is non-empty whenever the exception's own \<open>error_text\<close>, if any, is non-empty
  and the traceback is.
\<close>

theorem win_or_lose_failure:
  assumes "func h = (Inl err, h1)"
    and "win_or_lose env func h = (Inr envl, h2)"
  shows "envl = [(''error'', PStr (getattr_error_text err (format_exc env err))),
                 (''error_text'', PBool True)]
         \<and> (error_text err \<noteq> Some [] \<longrightarrow> format_exc env err \<noteq> []
              \<longrightarrow> getattr_error_text err (format_exc env err) \<noteq> [])"
  using assms
  by (auto simp: win_or_lose_def bindE_def call_def returnE_def raiseE_def Let_def
      setattr_error_text_def hasattr_error_text_def getattr_error_text_def
      split: option.splits prod.splits sum.splits)

text \<open>The theorem at an operation that raises an exception without \<open>error_text\<close>.\<close>

theorem win_or_lose_failure_witness:
  "raiseE boom [] = (Inl boom, [])
   \<and> win_or_lose example_env (raiseE boom) []
       = (Inr [(''error'', PStr ''Traceback (most recent call last)''),
               (''error_text'', PBool True)],
          [LogWrite ([CHR 0x0A] @ ''bad data'' @ [CHR 0x0A])])
   \<and> error_text boom \<noteq> Some [] \<and> format_exc example_env boom \<noteq> []
   \<and> getattr_error_text boom (format_exc example_env boom) \<noteq> []"
proof -
  have a: "raiseE boom [] = (Inl boom, [])" by (simp add: raiseE_def)
  have b: "win_or_lose example_env (raiseE boom) []
       = (Inr [(''error'', PStr ''Traceback (most recent call last)''),
               (''error_text'', PBool True)],
          [LogWrite ([CHR 0x0A] @ ''bad data'' @ [CHR 0x0A])])"
    by (simp add: win_or_lose_def bindE_def call_def returnE_def raiseE_def Let_def
      setattr_error_text_def hasattr_error_text_def getattr_error_text_def example_env_def boom_def)
  have c: "error_text boom \<noteq> Some []" by (simp add: boom_def)
  have d: "format_exc example_env boom \<noteq> []" by (simp add: example_env_def)
  show ?thesis using a b c d win_or_lose_failure [OF a b] by simp
qed

text \<open>
  C10 as stated fails: an exception whose own \<open>error_text\<close> is the empty string is
  captured into an envelope whose error field is empty.
\<close>

theorem win_or_lose_empty_error:
  "win_or_lose example_env (raiseE (Exn ''Exception'' [] (Some []) None)) []
   = (Inr [(''error'', PStr []), (''error_text'', PBool True)], [LogWrite [CHR 0x0A, CHR 0x0A]])"
  by (simp add: win_or_lose_def bindE_def call_def returnE_def raiseE_def Let_def
      setattr_error_text_def hasattr_error_text_def getattr_error_text_def example_env_def)

section \<open>Histories only grow\<close>

lemma call_result:
  "call env ev h = (r, h') \<Longrightarrow>
     h' = h @ [ev] \<and> r = (case raises env h ev of None \<Rightarrow> Inr () | Some e \<Rightarrow> Inl e)"
  by (auto simp: call_def split: option.splits)

lemma performed_append: "performed (xs @ ys) = performed xs @ performed ys"
  by (induction xs rule: performed.induct) auto

lemma installed_append: "installed (xs @ ys) = installed xs @ installed ys"
  by (induction xs rule: installed.induct) auto


lemma performed_map_PerformMerge: "performed (map (\<lambda>m. PerformMerge (f m)) ms) = map f ms"
  by (induction ms) auto

lemma installed_map_PerformMerge: "installed (map (\<lambda>m. PerformMerge (f m)) ms) = []"
  by (induction ms) auto

lemma perform_all_trace:
  "perform_all env p ms h = (r, h') \<Longrightarrow>
     \<exists>k \<le> length ms. h' = h @ map (\<lambda>m. PerformMerge (set_pool m p)) (take k ms)
        \<and> (r = Inr () \<longrightarrow> k = length ms)"
proof (induction ms arbitrary: h)
  case Nil
  then show ?case by (simp add: returnE_def)
next
  case (Cons m ms)
  show ?case
  proof (cases "raises env h (PerformMerge (set_pool m p))")
    case None
    with Cons.prems have "perform_all env p ms (h @ [PerformMerge (set_pool m p)]) = (r, h')"
      by (simp add: bindE_def call_def)
    from Cons.IH [OF this] obtain k where k: "k \<le> length ms"
      "h' = (h @ [PerformMerge (set_pool m p)]) @ map (\<lambda>m. PerformMerge (set_pool m p)) (take k ms)"
      "r = Inr () \<longrightarrow> k = length ms" by blast
    then show ?thesis by (intro exI [of _ "Suc k"]) simp
  next
    case (Some e)
    with Cons.prems have "r = Inl e" "h' = h @ [PerformMerge (set_pool m p)]"
      by (simp_all add: bindE_def call_def)
    then show ?thesis by (intro exI [of _ "Suc 0"]) simp
  qed
qed


lemma install_each_trace:
  "install_each env opts sel p ms h = (r, h') \<Longrightarrow>
     \<exists>evs. h' = h @ evs \<and> performed evs = [] \<and> merge_failures env h evs = []
        \<and> length evs \<le> length ms
        \<and> (\<forall>mods. r = Inr mods \<longrightarrow> installed evs = mods \<and> length evs = length ms
              \<and> length mods = length ms)"
proof (induction ms arbitrary: h r h')
  case Nil
  then show ?case by (auto simp: returnE_def)
next
  case (Cons m ms)
  let ?res = "install_result env h m opts (map_of sel m) None"
  let ?ev = "InstallMod m opts (map_of sel m) None p ?res"
  show ?case
  proof (cases ?res)
    case (Inl e)
    with Cons.prems have "r = Inl e" "h' = h @ [?ev]"
      by (simp_all add: bindE_def install_install_mod_def Let_def)
    then show ?thesis by (intro exI [of _ "[?ev]"]) (simp add: Inl)
  next
    case (Inr md)
    obtain r1 h1 where r1: "install_each env opts sel p ms (h @ [?ev]) = (r1, h1)"
      by (cases "install_each env opts sel p ms (h @ [?ev])") auto
    from Cons.IH [OF r1] obtain evs where e: "h1 = (h @ [?ev]) @ evs" "performed evs = []"
      "merge_failures env (h @ [?ev]) evs = []" "length evs \<le> length ms"
      "\<forall>mods. r1 = Inr mods \<longrightarrow> installed evs = mods \<and> length evs = length ms \<and> length mods = length ms"
      by blast
    from Cons.prems Inr r1 have res: "h' = h1" "r = (case r1 of Inl e \<Rightarrow> Inl e | Inr mds \<Rightarrow> Inr (md # mds))"
      by (auto simp: bindE_def install_install_mod_def Let_def returnE_def split: sum.splits)
    show ?thesis
      by (rule exI [of _ "?ev # evs"]) (use e res Inr in \<open>auto split: sum.splits\<close>)
  qed
qed

section \<open>Names in a set of mergers\<close>

lemma NAME_set_pool [simp]: "NAME (set_pool m p) = NAME m"
  by (simp add: set_pool_def)

lemma pool_set_pool [simp]: "pool (set_pool m p) = Some p"
  by (simp add: set_pool_def)

lemma NAME_new_instance [simp]: "NAME (new_instance m) = NAME m"
  by (simp add: new_instance_def)

lemma names_all_mergers: "map NAME (all_mergers env) = map NAME (get_mergers env)"
  by (simp add: all_mergers_def comp_def)

lemma names_get_mergers_for_mod:
  "NAME ` set (get_mergers_for_mod env md)
     = {n. n \<in> NAME ` set (get_mergers env) \<and> n \<in> set (logs md)}"
proof -
  have "map NAME (get_mergers_for_mod env md)
          = filter (\<lambda>n. n \<in> set (logs md)) (map NAME (all_mergers env))"
    by (simp add: get_mergers_for_mod_def is_mod_logged_def filter_map comp_def)
  then have "set (map NAME (get_mergers_for_mod env md))
          = set (filter (\<lambda>n. n \<in> set (logs md)) (map NAME (get_mergers env)))"
    by (simp only: names_all_mergers)
  then show ?thesis by auto
qed

lemma distinct_get_mergers_for_mod:
  "distinct (map NAME (get_mergers env)) \<Longrightarrow> distinct (map NAME (get_mergers_for_mod env md))"
  unfolding get_mergers_for_mod_def
  by (rule distinct_map_filter) (simp add: names_all_mergers)

lemma names_add_by_name:
  "NAME ` set (add_by_name s ms) = NAME ` set s \<union> NAME ` set ms"
  by (auto simp: add_by_name_def)

lemma distinct_add_by_name:
  "distinct (map NAME s) \<Longrightarrow> distinct (map NAME ms) \<Longrightarrow> distinct (map NAME (add_by_name s ms))"
proof -
  assume s: "distinct (map NAME s)" and ms: "distinct (map NAME ms)"
  have "distinct (map NAME (filter (\<lambda>m. NAME m \<notin> set (map NAME s)) ms))"
    using ms by (rule distinct_map_filter)
  moreover have "set (map NAME s) \<inter> set (map NAME (filter (\<lambda>m. NAME m \<notin> set (map NAME s)) ms)) = {}"
    by auto (metis imageI)
  ultimately show ?thesis using s by (simp add: add_by_name_def)
qed

lemma foldl_add_by_name:
  assumes "distinct (map NAME (get_mergers env))" "distinct (map NAME acc)"
  shows "distinct (map NAME (foldl (\<lambda>s md. add_by_name s (get_mergers_for_mod env md)) acc mods))
     \<and> NAME ` set (foldl (\<lambda>s md. add_by_name s (get_mergers_for_mod env md)) acc mods)
        = NAME ` set acc \<union> (\<Union>md \<in> set mods. NAME ` set (get_mergers_for_mod env md))"
  using assms(2)
proof (induction mods arbitrary: acc)
  case Nil
  then show ?case by simp
next
  case (Cons md mods)
  have d: "distinct (map NAME (add_by_name acc (get_mergers_for_mod env md)))"
    using Cons.prems assms(1) by (simp add: distinct_add_by_name distinct_get_mergers_for_mod)
  from Cons.IH [OF d] show ?case
    by (auto simp: names_add_by_name)
qed

lemma merger_set_of_names:
  assumes "distinct (map NAME (get_mergers env))"
  shows "distinct (map NAME (merger_set_of env mods))"
    and "NAME ` set (merger_set_of env mods)
         = {n. n \<in> NAME ` set (get_mergers env) \<and> (\<exists>md \<in> set mods. n \<in> set (logs md))}"
  using foldl_add_by_name [OF assms, of "[]" mods]
  by (auto simp: merger_set_of_def names_get_mergers_for_mod)

lemma sorted_names:
  assumes "mset xs = mset (ms :: merger list)"
  shows "NAME ` set xs = NAME ` set ms"
    and "distinct (map NAME xs) = distinct (map NAME ms)"
proof -
  show "NAME ` set xs = NAME ` set ms"
    using assms by (metis mset_eq_setD)
  have "mset (map NAME xs) = mset (map NAME ms)"
    using assms by (metis mset_map)
  then show "distinct (map NAME xs) = distinct (map NAME ms)"
    by (rule mset_eq_imp_distinct_iff)
qed

section \<open>\<open>install_mod\<close>: one batch, one run of each merger\<close>

lemma install_mod_success_trace:
  assumes "install_mod env params h = (Inr (), h')"
  shows "\<exists>ies. length ies = length (mods_p params) \<and> length (installed ies) = length (mods_p params)
           \<and> performed ies = []
           \<and> h' = h @ PoolOpen (length (filter is_PoolOpen h)) # ies
                  @ map (\<lambda>m. PerformMerge (set_pool m (length (filter is_PoolOpen h))))
                      (sort_mergers env (merger_set_of env (installed ies)))
                  @ [PoolClose (length (filter is_PoolOpen h))]"
proof -
  let ?p = "length (filter is_PoolOpen h)"
  let ?h0 = "h @ [PoolOpen ?p]"
  let ?sel = "case selects_p params of None \<Rightarrow> [] | Some s \<Rightarrow> s"
  from assms have op: "raises env h (PoolOpen ?p) = None"
    by (auto simp: install_mod_def with_pool_def call_def Let_def split: option.splits)
  obtain r1 h1 where r1: "install_each env (options_p params) ?sel ?p (mods_p params) ?h0 = (r1, h1)"
    by (cases "install_each env (options_p params) ?sel ?p (mods_p params) ?h0") auto
  from assms op r1 obtain mods where mods: "r1 = Inr mods"
    by (cases r1) (auto simp: install_mod_def with_pool_def call_def Let_def bindE_def split: prod.splits)
  obtain r2 h2 where r2: "perform_all env ?p (sort_mergers env (merger_set_of env mods)) h1 = (r2, h2)"
    by (cases "perform_all env ?p (sort_mergers env (merger_set_of env mods)) h1") auto
  from assms op r1 mods r2 have fin: "r2 = Inr ()" "h' = h2 @ [PoolClose ?p]"
    by (auto simp: install_mod_def with_pool_def call_def Let_def bindE_def try_MergeError_def
        split: prod.splits sum.splits)
  from install_each_trace [OF r1] mods obtain ies where ies: "h1 = ?h0 @ ies" "performed ies = []"
    "installed ies = mods" "length ies = length (mods_p params)" "length mods = length (mods_p params)"
    by blast
  from perform_all_trace [OF r2] fin(1)
  have h2: "h2 = h1 @ map (\<lambda>m. PerformMerge (set_pool m ?p)) (sort_mergers env (merger_set_of env mods))"
    by auto
  show ?thesis
    by (rule exI [of _ ies]) (use ies h2 fin in simp)
qed

text \<open>
  C2. When \<open>install_mod\<close> returns without raising, what it did is: open one pool, install
  every package of the batch (one successful install per package, nothing else), and
  only then run \<open>perform_merge\<close>, in the order
  \<open>sort_mergers\<close> gives, on the set of mergers gathered from the installed mods, every
  one with the pool opened at the start; then close the pool. For a \<open>sort_mergers\<close> that
  permutes its input and a registry whose names differ, the names that ran are exactly
  the registered mergers that logged some installed mod, and each ran once.
\<close>

theorem install_mod_batch:
  assumes ok: "install_mod env params h = (Inr (), h')"
    and perm: "\<forall>ms. mset (sort_mergers env ms) = mset ms"
    and reg: "distinct (map NAME (get_mergers env))"
  shows "(\<exists>ies. length ies = length (mods_p params)
           \<and> length (installed ies) = length (mods_p params) \<and> performed ies = []
           \<and> drop (length h) h' = PoolOpen (length (filter is_PoolOpen h)) # ies
                  @ map (\<lambda>m. PerformMerge (set_pool m (length (filter is_PoolOpen h))))
                      (sort_mergers env (merger_set_of env (installed ies)))
                  @ [PoolClose (length (filter is_PoolOpen h))])
     \<and> NAME ` set (performed (drop (length h) h'))
         = {n. n \<in> NAME ` set (get_mergers env)
               \<and> (\<exists>md \<in> set (installed (drop (length h) h')). n \<in> set (logs md))}
     \<and> distinct (map NAME (performed (drop (length h) h')))
     \<and> (\<forall>m \<in> set (performed (drop (length h) h')). pool m = Some (length (filter is_PoolOpen h)))"
proof -
  let ?p = "length (filter is_PoolOpen h)"
  from install_mod_success_trace [OF ok] obtain ies where
    ies: "length (installed ies) = length (mods_p params)" "performed ies = []"
      "length ies = length (mods_p params)"
    and h': "h' = h @ PoolOpen ?p # ies
                  @ map (\<lambda>m. PerformMerge (set_pool m ?p))
                      (sort_mergers env (merger_set_of env (installed ies)))
                  @ [PoolClose ?p]" by blast
  let ?srt = "sort_mergers env (merger_set_of env (installed ies))"
  have dr: "drop (length h) h' = PoolOpen ?p # ies @ map (\<lambda>m. PerformMerge (set_pool m ?p)) ?srt @ [PoolClose ?p]"
    using h' by simp
  have perf: "performed (drop (length h) h') = map (\<lambda>m. set_pool m ?p) ?srt"
    by (simp add: dr performed_append ies performed_map_PerformMerge)
  have inst: "installed (drop (length h) h') = installed ies"
    by (simp add: dr installed_append installed_map_PerformMerge)
  have pm: "mset ?srt = mset (merger_set_of env (installed ies))" using perm by blast
  have names: "map NAME (performed (drop (length h) h')) = map NAME ?srt"
    by (simp add: perf comp_def)
  have n1: "NAME ` set (performed (drop (length h) h')) = NAME ` set ?srt"
    using names by (metis list.set_map)
  have "\<exists>ies. length ies = length (mods_p params)
           \<and> length (installed ies) = length (mods_p params) \<and> performed ies = []
           \<and> drop (length h) h' = PoolOpen ?p # ies
                  @ map (\<lambda>m. PerformMerge (set_pool m ?p)) (sort_mergers env (merger_set_of env (installed ies)))
                  @ [PoolClose ?p]"
    using ies dr by blast
  moreover have "NAME ` set (performed (drop (length h) h'))
         = {n. n \<in> NAME ` set (get_mergers env)
               \<and> (\<exists>md \<in> set (installed (drop (length h) h')). n \<in> set (logs md))}"
    unfolding n1 inst using sorted_names(1) [OF pm] merger_set_of_names(2) [OF reg] by simp
  moreover have "distinct (map NAME (performed (drop (length h) h')))"
    unfolding names using sorted_names(2) [OF pm] merger_set_of_names(1) [OF reg] by simp
  moreover have "\<forall>m \<in> set (performed (drop (length h) h')). pool m = Some ?p"
    by (auto simp: perf)
  ultimately show ?thesis by blast
qed


section \<open>Merge failures\<close>





lemma example_sort: "\<forall>ms. mset (sort_mergers example_env ms) = mset ms"
  by (simp add: example_env_def)

lemmas run_defs = install_mod_def with_pool_def call_def bindE_def returnE_def raiseE_def
  install_install_mod_def try_MergeError_def merger_set_of_def add_by_name_def
  get_mergers_for_mod_def all_mergers_def new_instance_def is_mod_logged_def set_pool_def
  Let_def

text \<open>The theorem at a batch of two packages, one logged by each merger.\<close>

theorem install_mod_batch_witness:
  "install_mod example_env two_mods []
     = (Inr (),
        [PoolOpen 0,
         InstallMod ''A.bnp'' [] None None 0 (Inr \<lparr>path = ''A.bnp'', priority = 1, logs = [''m1'']\<rparr>),
         InstallMod ''B.bnp'' [] None None 0 (Inr \<lparr>path = ''B.bnp'', priority = 2, logs = [''m2'']\<rparr>),
         PerformMerge \<lparr>NAME = ''m2'', friendly_name = ''Merger 2'', pool = Some 0\<rparr>,
         PerformMerge \<lparr>NAME = ''m1'', friendly_name = ''Merger 1'', pool = Some 0\<rparr>,
         PoolClose 0])
   \<and> (\<forall>ms. mset (sort_mergers example_env ms) = mset ms)
   \<and> distinct (map NAME (get_mergers example_env))
   \<and> distinct (map NAME (performed (drop (length ([] :: event list))
        (snd (install_mod example_env two_mods [])))))"
proof -
  have a: "install_mod example_env two_mods []
     = (Inr (),
        [PoolOpen 0,
         InstallMod ''A.bnp'' [] None None 0 (Inr \<lparr>path = ''A.bnp'', priority = 1, logs = [''m1'']\<rparr>),
         InstallMod ''B.bnp'' [] None None 0 (Inr \<lparr>path = ''B.bnp'', priority = 2, logs = [''m2'']\<rparr>),
         PerformMerge \<lparr>NAME = ''m2'', friendly_name = ''Merger 2'', pool = Some 0\<rparr>,
         PerformMerge \<lparr>NAME = ''m1'', friendly_name = ''Merger 1'', pool = Some 0\<rparr>,
         PoolClose 0])"
    by (simp add: run_defs example_env_def two_mods_def M1_def M2_def)
  have b: "\<forall>ms. mset (sort_mergers example_env ms) = mset ms"
    by (simp add: example_env_def)
  have c: "distinct (map NAME (get_mergers example_env))"
    by (simp add: example_env_def M1_def M2_def)
  from install_mod_batch [OF a b c]
  have "distinct (map NAME (performed (drop (length ([] :: event list))
        (snd (install_mod example_env two_mods [])))))"
    unfolding a by simp
  with a b c show ?thesis by blast
qed


section \<open>\<open>update_mod\<close>: same priority, one run of each affected merger\<close>

lemma filter_PoolOpen_Rmtree [simp]: "filter is_PoolOpen (h @ [Rmtree d]) = filter is_PoolOpen h"
  by simp



lemmas update_defs = update_mod_def file_pick_def load_options_def


section \<open>Only affected mergers run\<close>

lemma perform_all_subset:
  assumes "perform_all env p ms h = (r, h')"
  shows "\<exists>evs. h' = h @ evs \<and> installed evs = [] \<and> NAME ` set (performed evs) \<subseteq> NAME ` set ms"
proof -
  from perform_all_trace [OF assms] obtain k where
    k: "h' = h @ map (\<lambda>m. PerformMerge (set_pool m p)) (take k ms)" by blast
  have "NAME ` set (performed (map (\<lambda>m. PerformMerge (set_pool m p)) (take k ms)))
          \<subseteq> NAME ` set ms"
    using set_take_subset [of k ms] by (auto simp: performed_map_PerformMerge)
  with k show ?thesis by (auto simp: installed_map_PerformMerge)
qed

lemma names_merger_set_of:
  "NAME ` set (foldl (\<lambda>s md. add_by_name s (get_mergers_for_mod env md)) acc mods)
     \<subseteq> NAME ` set acc \<union> {n. \<exists>md \<in> set mods. n \<in> set (logs md)}"
proof (induction mods arbitrary: acc)
  case Nil
  then show ?case by simp
next
  case (Cons md mods)
  show ?case
    using Cons.IH [of "add_by_name acc (get_mergers_for_mod env md)"]
    by (auto simp: names_add_by_name names_get_mergers_for_mod)
qed

lemma merger_set_of_logged:
  "NAME ` set (merger_set_of env mods) \<subseteq> {n. \<exists>md \<in> set mods. n \<in> set (logs md)}"
  using names_merger_set_of [of env "[]" mods] by (simp add: merger_set_of_def)

lemma inner_remergers:
  "NAME ` set (foldl (\<lambda>remergers m.
                       if is_mod_logged m md \<and> NAME m \<notin> set (map NAME remergers)
                       then remergers @ [m] else remergers) acc ms)
     \<subseteq> NAME ` set acc \<union> set (logs md)"
proof (induction ms arbitrary: acc)
  case Nil
  then show ?case by simp
next
  case (Cons m ms)
  let ?acc = "if is_mod_logged m md \<and> NAME m \<notin> set (map NAME acc) then acc @ [m] else acc"
  have "NAME ` set ?acc \<subseteq> NAME ` set acc \<union> set (logs md)"
    by (auto simp: is_mod_logged_def)
  with Cons.IH [of ?acc] show ?case
    by (simp only: foldl_Cons) blast
qed

lemma outer_remergers:
  "NAME ` set (foldl (\<lambda>remergers md.
              foldl (\<lambda>remergers m.
                       if is_mod_logged m md \<and> NAME m \<notin> set (map NAME remergers)
                       then remergers @ [m] else remergers)
                remergers ms) acc mods)
     \<subseteq> NAME ` set acc \<union> {n. \<exists>md \<in> set mods. n \<in> set (logs md)}"
proof (induction mods arbitrary: acc)
  case Nil
  then show ?case by simp
next
  case (Cons md mods)
  let ?acc = "foldl (\<lambda>remergers m.
                       if is_mod_logged m md \<and> NAME m \<notin> set (map NAME remergers)
                       then remergers @ [m] else remergers) acc ms"
  from Cons.IH [of ?acc] inner_remergers [of md acc ms]
  show ?case by auto
qed

lemma remergers_of_logged:
  "NAME ` set (remergers_of env mods) \<subseteq> {n. \<exists>md \<in> set mods. n \<in> set (logs md)}"
  using outer_remergers [of "all_mergers env" "[]" mods] by (simp add: remergers_of_def)

lemma apply_moves_trace:
  "apply_moves env mvs acc h = (r, h') \<Longrightarrow>
     \<exists>evs. h' = h @ evs \<and> performed evs = [] \<and> installed evs = []
        \<and> (\<forall>mods. r = Inr mods \<longrightarrow>
              mods = acc @ map (\<lambda>mv. (move_mod mv)\<lparr>priority := move_priority mv\<rparr>) mvs)"
proof (induction mvs arbitrary: acc h)
  case Nil
  then show ?case by (auto simp: returnE_def)
next
  case (Cons mv mvs)
  let ?ev = "ChangePriority (move_mod mv) (move_priority mv)"
  show ?case
  proof (cases "raises env h ?ev")
    case (Some e)
    with Cons.prems have "r = Inl e" "h' = h @ [?ev]"
      by (simp_all add: bindE_def call_def)
    then show ?thesis by (intro exI [of _ "[?ev]"]) simp
  next
    case None
    with Cons.prems have
      "apply_moves env mvs (acc @ [(move_mod mv)\<lparr>priority := move_priority mv\<rparr>]) (h @ [?ev]) = (r, h')"
      by (simp add: bindE_def call_def)
    from Cons.IH [OF this] obtain evs where e: "h' = (h @ [?ev]) @ evs" "performed evs = []"
      "installed evs = []"
      "\<forall>mods. r = Inr mods \<longrightarrow>
          mods = (acc @ [(move_mod mv)\<lparr>priority := move_priority mv\<rparr>])
                 @ map (\<lambda>mv. (move_mod mv)\<lparr>priority := move_priority mv\<rparr>) mvs"
      by blast
    show ?thesis by (rule exI [of _ "?ev # evs"]) (use e in simp)
  qed
qed

lemma install_queue_logged:
  assumes sub: "\<forall>ms. set (sort_mergers env ms) \<subseteq> set ms"
  shows "install_queue env p q mods h = (r, h') \<Longrightarrow>
     \<exists>evs. h' = h @ evs
        \<and> NAME ` set (performed evs)
            \<subseteq> {n. \<exists>md \<in> set mods \<union> set (installed evs). n \<in> set (logs md)}"
proof (induction q arbitrary: mods h)
  case Nil
  then show ?case by (auto simp: returnE_def)
next
  case (Cons i rest)
  let ?pth = "remove_all ''QUEUE'' (q_path i)"
  let ?res = "install_result env h ?pth (q_options i) None (Some (q_priority i))"
  let ?ev = "InstallMod ?pth (q_options i) None (Some (q_priority i)) p ?res"
  show ?case
  proof (cases ?res)
    case (Inl e)
    with Cons.prems have "h' = h @ [?ev]"
      by (simp add: bindE_def install_install_mod_def Let_def)
    then show ?thesis by (intro exI [of _ "[?ev]"]) (simp add: Inl)
  next
    case (Inr md)
    let ?ms = "sort_mergers env (remergers_of env (mods @ [md]))"
    obtain r1 h1 where r1: "perform_all env p ?ms (h @ [?ev]) = (r1, h1)"
      by (cases "perform_all env p ?ms (h @ [?ev])") auto
    from perform_all_subset [OF r1] obtain pes where pes: "h1 = (h @ [?ev]) @ pes"
      "installed pes = []" "NAME ` set (performed pes) \<subseteq> NAME ` set ?ms" by blast
    have "NAME ` set ?ms \<subseteq> NAME ` set (remergers_of env (mods @ [md]))"
      using sub by blast
    with pes(3) remergers_of_logged [of env "mods @ [md]"]
    have pl: "NAME ` set (performed pes) \<subseteq> {n. \<exists>x \<in> set mods \<union> {md}. n \<in> set (logs x)}"
      by auto
    show ?thesis
    proof (cases r1)
      case (Inl e)
      with Cons.prems Inr r1 have "h' = h1"
        by (simp add: bindE_def install_install_mod_def Let_def)
      with pes pl show ?thesis
        by (intro exI [of _ "?ev # pes"])
          (auto simp: Inr performed_append installed_append)
    next
      case r1r: (Inr u)
      with Cons.prems Inr r1 have "install_queue env p rest (mods @ [md]) h1 = (r, h')"
        by (simp add: bindE_def install_install_mod_def Let_def)
      from Cons.IH [OF this] obtain evs where evs: "h' = h1 @ evs"
        "NAME ` set (performed evs)
            \<subseteq> {n. \<exists>x \<in> set (mods @ [md]) \<union> set (installed evs). n \<in> set (logs x)}" by blast
      show ?thesis
        by (rule exI [of _ "?ev # pes @ evs"])
          (use pes pl evs in \<open>auto simp: Inr performed_append installed_append\<close>)
    qed
  qed
qed

lemma install_mod_logged:
  assumes sub: "\<forall>ms. set (sort_mergers env ms) \<subseteq> set ms"
    and run: "install_mod env params h = (r, h')"
  shows "NAME ` set (performed (drop (length h) h'))
           \<subseteq> {n. \<exists>md \<in> set (installed (drop (length h) h')). n \<in> set (logs md)}"
proof -
  let ?p = "length (filter is_PoolOpen h)"
  let ?h0 = "h @ [PoolOpen ?p]"
  let ?sel = "case selects_p params of None \<Rightarrow> [] | Some s \<Rightarrow> s"
  show ?thesis
  proof (cases "raises env h (PoolOpen ?p)")
    case (Some e)
    with run have "h' = ?h0"
      by (auto simp: install_mod_def with_pool_def call_def Let_def)
    then show ?thesis by simp
  next
    case None
    obtain r1 h1 where r1: "install_each env (options_p params) ?sel ?p (mods_p params) ?h0 = (r1, h1)"
      by (cases "install_each env (options_p params) ?sel ?p (mods_p params) ?h0") auto
    from install_each_trace [OF r1] obtain ies where ies: "h1 = ?h0 @ ies" "performed ies = []"
      "\<forall>mods. r1 = Inr mods \<longrightarrow> installed ies = mods" by blast
    show ?thesis
    proof (cases r1)
      case (Inl e)
      with run None r1 have "h' = h1 @ [PoolClose ?p]"
        by (auto simp: install_mod_def with_pool_def call_def Let_def bindE_def)
      then have "drop (length h) h' = PoolOpen ?p # ies @ [PoolClose ?p]" using ies by simp
      then show ?thesis using ies(2) by (simp add: performed_append)
    next
      case (Inr mods)
      let ?ms = "sort_mergers env (merger_set_of env mods)"
      obtain r2 h2 where r2: "perform_all env ?p ?ms h1 = (r2, h2)"
        by (cases "perform_all env ?p ?ms h1") auto
      from run None r1 Inr r2 have fin: "h' = h2 @ [PoolClose ?p]"
        by (auto simp: install_mod_def with_pool_def call_def Let_def bindE_def try_MergeError_def
            split: sum.splits)
      from perform_all_subset [OF r2] obtain pes where pes: "h2 = h1 @ pes"
        "installed pes = []" "NAME ` set (performed pes) \<subseteq> NAME ` set ?ms" by blast
      have dr: "drop (length h) h' = (PoolOpen ?p # ies) @ pes @ [PoolClose ?p]"
        using fin pes(1) ies(1) by simp
      have "NAME ` set ?ms \<subseteq> NAME ` set (merger_set_of env mods)" using sub by blast
      with pes(3) merger_set_of_logged [of env mods]
      have "NAME ` set (performed pes) \<subseteq> {n. \<exists>md \<in> set mods. n \<in> set (logs md)}" by auto
      moreover have "installed (drop (length h) h') = mods"
        using ies(3) Inr pes(2) by (simp add: dr installed_append)
      moreover have "performed (drop (length h) h') = performed pes"
        using ies(2) by (simp add: dr performed_append)
      ultimately show ?thesis by simp
    qed
  qed
qed

lemma update_mod_logged:
  assumes run: "update_mod env md h = (r, h')"
  shows "NAME ` set (performed (drop (length h) h'))
           \<subseteq> set (logs md) \<union> {n. \<exists>new \<in> set (installed (drop (length h) h')). n \<in> set (logs new)}"
proof (cases "file_pick env h")
  case Nil
  with run have "h' = h" by (simp add: update_mod_def)
  then show ?thesis by simp
next
  case (Cons f fs)
  let ?p = "length (filter is_PoolOpen h)"
  let ?h1 = "h @ [Rmtree (path md)]"
  let ?h2 = "?h1 @ [PoolOpen ?p]"
  show ?thesis
  proof (cases "load_options env md h")
    case (Pair ro ho)
    then have ho: "ho = h"
      by (auto simp: load_options_def split: option.splits sum.splits)
    show ?thesis
    proof (cases ro)
      case (Inl e)
      with run Cons Pair ho have "h' = h" by (simp add: update_mod_def bindE_def)
      then show ?thesis by simp
    next
      case (Inr opts)
      show ?thesis
      proof (cases "raises env h (Rmtree (path md))")
        case (Some e)
        with run Cons Pair ho Inr have "h' = ?h1"
          by (simp add: update_mod_def bindE_def call_def)
        then show ?thesis by simp
      next
        case rm: None
        show ?thesis
        proof (cases "raises env ?h1 (PoolOpen ?p)")
          case (Some e)
          with run Cons Pair ho Inr rm have "h' = ?h2"
            by (simp add: update_mod_def bindE_def call_def with_pool_def Let_def)
          then show ?thesis by simp
        next
          case po: None
          let ?res = "install_result env ?h2 f opts None (Some (priority md))"
          let ?ev = "InstallMod f opts None (Some (priority md)) ?p ?res"
          show ?thesis
          proof (cases ?res)
            case (Inl e)
            with run Cons Pair ho Inr rm po have "h' = ?h2 @ [?ev, PoolClose ?p]"
              by (simp add: update_mod_def bindE_def call_def with_pool_def Let_def
                  install_install_mod_def)
            then show ?thesis by (simp add: Inl)
          next
            case nm: (Inr new_mod)
            let ?ms = "add_by_name (get_mergers_for_mod env md) (get_mergers_for_mod env new_mod)"
            obtain r4 h4 where r4: "perform_all env ?p ?ms (?h2 @ [?ev]) = (r4, h4)"
              by (cases "perform_all env ?p ?ms (?h2 @ [?ev])") auto
            from run Cons Pair ho Inr rm po nm r4 have fin: "h' = h4 @ [PoolClose ?p]"
              by (simp add: update_mod_def bindE_def call_def with_pool_def Let_def
                  install_install_mod_def)
            from perform_all_subset [OF r4] obtain pes where pes: "h4 = (?h2 @ [?ev]) @ pes"
              "installed pes = []" "NAME ` set (performed pes) \<subseteq> NAME ` set ?ms" by blast
            have dr: "drop (length h) h' = [Rmtree (path md), PoolOpen ?p, ?ev] @ pes @ [PoolClose ?p]"
              using fin pes(1) by simp
            have "NAME ` set ?ms \<subseteq> set (logs md) \<union> set (logs new_mod)"
              by (auto simp: names_add_by_name names_get_mergers_for_mod)
            with pes(3) have "NAME ` set (performed pes) \<subseteq> set (logs md) \<union> set (logs new_mod)"
              by blast
            moreover have "installed (drop (length h) h') = [new_mod]"
              using pes(2) nm by (simp add: dr installed_append)
            moreover have "performed (drop (length h) h') = performed pes"
              by (simp add: dr performed_append)
            ultimately show ?thesis by auto
          qed
        qed
      qed
    qed
  qed
qed

lemma apply_queue_logged:
  assumes sub: "\<forall>ms. set (sort_mergers env ms) \<subseteq> set ms"
    and run: "apply_queue env qp h = (r, h')"
  shows "NAME ` set (performed (drop (length h) h'))
           \<subseteq> {n. \<exists>md \<in> move_mod ` set (moves qp) \<union> set (installed (drop (length h) h')).
                    n \<in> set (logs md)}"
proof -
  obtain r0 h0 where r0: "apply_moves env (moves qp) [] h = (r0, h0)"
    by (cases "apply_moves env (moves qp) [] h") auto
  from apply_moves_trace [OF r0] obtain mes where mes: "h0 = h @ mes" "performed mes = []"
    "installed mes = []"
    "\<forall>mods. r0 = Inr mods \<longrightarrow>
        mods = [] @ map (\<lambda>mv. (move_mod mv)\<lparr>priority := move_priority mv\<rparr>) (moves qp)"
    by blast
  show ?thesis
  proof (cases r0)
    case (Inl e)
    with run r0 have "h' = h0" by (simp add: apply_queue_def bindE_def)
    with mes show ?thesis by simp
  next
    case (Inr mods)
    with mes(4) have mods: "mods = map (\<lambda>mv. (move_mod mv)\<lparr>priority := move_priority mv\<rparr>) (moves qp)"
      by simp
    have lm: "(\<Union>md \<in> set mods. set (logs md)) = (\<Union>md \<in> move_mod ` set (moves qp). set (logs md))"
      by (simp add: mods)
    have un: "\<And>X S. {n. \<exists>md \<in> X \<union> S. n \<in> set (logs md)}
                  = (\<Union>md \<in> X. set (logs md)) \<union> (\<Union>md \<in> S. set (logs (md :: bcml_mod)))"
      by auto
    have logs_mods: "\<And>S. {n. \<exists>md \<in> set mods \<union> S. n \<in> set (logs md)}
                     = {n. \<exists>md \<in> move_mod ` set (moves qp) \<union> S. n \<in> set (logs md)}"
      by (simp only: un lm)
    let ?p = "length (filter is_PoolOpen h0)"
    show ?thesis
    proof (cases "raises env h0 (PoolOpen ?p)")
      case (Some e)
      with run r0 Inr have "h' = h0 @ [PoolOpen ?p]"
        by (simp add: apply_queue_def bindE_def with_pool_def call_def Let_def)
      with mes show ?thesis by (simp add: performed_append)
    next
      case None
      obtain r1 h1 where r1: "install_queue env ?p (installs qp) mods (h0 @ [PoolOpen ?p]) = (r1, h1)"
        by (cases "install_queue env ?p (installs qp) mods (h0 @ [PoolOpen ?p])") auto
      from install_queue_logged [OF sub r1] obtain evs where evs: "h1 = (h0 @ [PoolOpen ?p]) @ evs"
        "NAME ` set (performed evs)
            \<subseteq> {n. \<exists>md \<in> set mods \<union> set (installed evs). n \<in> set (logs md)}" by blast
      from run r0 Inr None r1 obtain tl where tl: "h' = h1 @ tl" "performed tl = []" "installed tl = []"
        by (cases r1)
          (auto simp: apply_queue_def bindE_def with_pool_def call_def Let_def split: option.splits)
      have dr: "drop (length h) h' = mes @ [PoolOpen ?p] @ evs @ tl"
        using tl(1) evs(1) mes(1) by simp
      have "performed (drop (length h) h') = performed evs"
        using mes(2) tl(2) by (simp add: dr performed_append)
      moreover have "installed (drop (length h) h') = installed evs"
        using mes(3) tl(3) by (simp add: dr installed_append)
      ultimately show ?thesis using evs(2) by (simp only: logs_mods)
    qed
  qed
qed

text \<open>
  C4. In \<open>install_mod\<close>, \<open>update_mod\<close> and \<open>apply_queue\<close>, however the operation ends, a merger
  that logged none of the mods the operation touched (the mods it installed, the mod
  it updated, the mods it moved) is not among the mergers whose \<open>perform_merge\<close> was
  invoked; \<open>sort_mergers\<close>, which is not under src/, is taken to return mergers of its
  input only.
\<close>

theorem unaffected_never_runs:
  assumes sub: "\<forall>ms. set (sort_mergers env ms) \<subseteq> set ms"
  shows "(install_mod env params h = (r1, h1)
            \<longrightarrow> (\<forall>md \<in> set (installed (drop (length h) h1)). \<not> is_mod_logged m md)
            \<longrightarrow> NAME m \<notin> NAME ` set (performed (drop (length h) h1)))
       \<and> (update_mod env old h = (r2, h2)
            \<longrightarrow> \<not> is_mod_logged m old
            \<longrightarrow> (\<forall>md \<in> set (installed (drop (length h) h2)). \<not> is_mod_logged m md)
            \<longrightarrow> NAME m \<notin> NAME ` set (performed (drop (length h) h2)))
       \<and> (apply_queue env qp h = (r3, h3)
            \<longrightarrow> (\<forall>mv \<in> set (moves qp). \<not> is_mod_logged m (move_mod mv))
            \<longrightarrow> (\<forall>md \<in> set (installed (drop (length h) h3)). \<not> is_mod_logged m md)
            \<longrightarrow> NAME m \<notin> NAME ` set (performed (drop (length h) h3)))"
proof (intro conjI impI)
  assume "install_mod env params h = (r1, h1)"
    and "\<forall>md \<in> set (installed (drop (length h) h1)). \<not> is_mod_logged m md"
  with install_mod_logged [OF sub, of params h r1 h1]
  show "NAME m \<notin> NAME ` set (performed (drop (length h) h1))"
    by (auto simp: is_mod_logged_def)
next
  assume "update_mod env old h = (r2, h2)" and "\<not> is_mod_logged m old"
    and "\<forall>md \<in> set (installed (drop (length h) h2)). \<not> is_mod_logged m md"
  with update_mod_logged [of env old h r2 h2]
  show "NAME m \<notin> NAME ` set (performed (drop (length h) h2))"
    by (auto simp: is_mod_logged_def)
next
  assume "apply_queue env qp h = (r3, h3)"
    and "\<forall>mv \<in> set (moves qp). \<not> is_mod_logged m (move_mod mv)"
    and "\<forall>md \<in> set (installed (drop (length h) h3)). \<not> is_mod_logged m md"
  with apply_queue_logged [OF sub, of qp h r3 h3]
  show "NAME m \<notin> NAME ` set (performed (drop (length h) h3))"
    by (auto simp: is_mod_logged_def)
qed

text \<open>
  The theorem at three operations that touch only mods logged by the second merger:
  the first merger does not run.
\<close>

theorem unaffected_never_runs_witness:
  "(\<forall>ms. set (sort_mergers example_env ms) \<subseteq> set ms)
   \<and> install_mod example_env only_B []
     = (Inr (),
        [PoolOpen 0,
         InstallMod ''B.bnp'' [] None None 0 (Inr \<lparr>path = ''B.bnp'', priority = 1, logs = [''m2'']\<rparr>),
         PerformMerge \<lparr>NAME = ''m2'', friendly_name = ''Merger 2'', pool = Some 0\<rparr>,
         PoolClose 0])
   \<and> update_mod example_env mod_B []
     = (Inr (),
        [Rmtree ''mods/B'', PoolOpen 0,
         InstallMod ''B.bnp'' [] None (Some 200) 0
           (Inr \<lparr>path = ''B.bnp'', priority = 200, logs = [''m2'']\<rparr>),
         PerformMerge \<lparr>NAME = ''m2'', friendly_name = ''Merger 2'', pool = Some 0\<rparr>,
         PoolClose 0])
   \<and> apply_queue example_env queue_B []
     = (Inr (),
        [ChangePriority mod_B 7, PoolOpen 0,
         InstallMod ''B.bnp'' [] None (Some 4) 0 (Inr \<lparr>path = ''B.bnp'', priority = 4, logs = [''m2'']\<rparr>),
         PerformMerge \<lparr>NAME = ''m2'', friendly_name = ''Merger 2'', pool = Some 0\<rparr>,
         PoolClose 0, RefreshMasterExport])
   \<and> \<not> is_mod_logged M1 mod_B
   \<and> \<not> is_mod_logged M1 \<lparr>path = ''B.bnp'', priority = 1, logs = [''m2'']\<rparr>
   \<and> NAME M1 \<notin> NAME ` set (performed (drop (length ([] :: event list))
        (snd (install_mod example_env only_B []))))
   \<and> NAME M1 \<notin> NAME ` set (performed (drop (length ([] :: event list))
        (snd (update_mod example_env mod_B []))))
   \<and> NAME M1 \<notin> NAME ` set (performed (drop (length ([] :: event list))
        (snd (apply_queue example_env queue_B []))))"
proof -
  let ?H1 = "[PoolOpen 0,
         InstallMod ''B.bnp'' [] None None 0 (Inr \<lparr>path = ''B.bnp'', priority = 1, logs = [''m2'']\<rparr>),
         PerformMerge \<lparr>NAME = ''m2'', friendly_name = ''Merger 2'', pool = Some 0\<rparr>,
         PoolClose 0]"
  let ?H2 = "[Rmtree ''mods/B'', PoolOpen 0,
         InstallMod ''B.bnp'' [] None (Some 200) 0
           (Inr \<lparr>path = ''B.bnp'', priority = 200, logs = [''m2'']\<rparr>),
         PerformMerge \<lparr>NAME = ''m2'', friendly_name = ''Merger 2'', pool = Some 0\<rparr>,
         PoolClose 0]"
  let ?H3 = "[ChangePriority mod_B 7, PoolOpen 0,
         InstallMod ''B.bnp'' [] None (Some 4) 0 (Inr \<lparr>path = ''B.bnp'', priority = 4, logs = [''m2'']\<rparr>),
         PerformMerge \<lparr>NAME = ''m2'', friendly_name = ''Merger 2'', pool = Some 0\<rparr>,
         PoolClose 0, RefreshMasterExport]"
  have s: "\<forall>ms. set (sort_mergers example_env ms) \<subseteq> set ms"
    by (simp add: example_env_def)
  have a: "install_mod example_env only_B [] = (Inr (), ?H1)"
    by (simp add: run_defs example_env_def only_B_def M1_def M2_def)
  have b: "update_mod example_env mod_B [] = (Inr (), ?H2)"
    by (simp add: update_defs run_defs example_env_def mod_B_def M1_def M2_def)
  have c: "apply_queue example_env queue_B [] = (Inr (), ?H3)"
    by (simp add: apply_queue_def remergers_of_def run_defs example_env_def queue_B_def
        mod_B_def M1_def M2_def)
  have n: "\<not> is_mod_logged M1 mod_B"
    "\<not> is_mod_logged M1 \<lparr>path = ''B.bnp'', priority = 1, logs = [''m2'']\<rparr>"
    by (simp_all add: is_mod_logged_def M1_def mod_B_def)
  have i1: "\<forall>md \<in> set (installed (drop (length ([] :: event list)) ?H1)). \<not> is_mod_logged M1 md"
    by (simp add: is_mod_logged_def M1_def)
  have i2: "\<forall>md \<in> set (installed (drop (length ([] :: event list)) ?H2)). \<not> is_mod_logged M1 md"
    by (simp add: is_mod_logged_def M1_def)
  have i3: "\<forall>md \<in> set (installed (drop (length ([] :: event list)) ?H3)). \<not> is_mod_logged M1 md"
    by (simp add: is_mod_logged_def M1_def)
  have m3: "\<forall>mv \<in> set (moves queue_B). \<not> is_mod_logged M1 (move_mod mv)"
    using n(1) by (simp add: queue_B_def)
  from unaffected_never_runs [OF s, of only_B "[]" "Inr ()" ?H1 M1 mod_B "Inr ()" ?H2 queue_B "Inr ()" ?H3]
    a b c n(1) i1 i2 i3 m3
  have "NAME M1 \<notin> NAME ` set (performed (drop (length ([] :: event list)) ?H1))
      \<and> NAME M1 \<notin> NAME ` set (performed (drop (length ([] :: event list)) ?H2))
      \<and> NAME M1 \<notin> NAME ` set (performed (drop (length ([] :: event list)) ?H3))"
    by blast
  with s a b c n show ?thesis by simp
qed

text \<open>
  C1, on the code. With two queued installs the mergers run inside the loop, after each
  install: the first merger runs after the first install and again after the second.
  With one priority move and no install, no merger runs at all, although the first
  merger logged the moved mod.
\<close>

theorem apply_queue_merges_per_install:
  "apply_queue example_env two_installs []
     = (Inr (),
        [PoolOpen 0,
         InstallMod ''A.bnp'' [] None (Some 3) 0 (Inr \<lparr>path = ''A.bnp'', priority = 3, logs = [''m1'']\<rparr>),
         PerformMerge \<lparr>NAME = ''m1'', friendly_name = ''Merger 1'', pool = Some 0\<rparr>,
         InstallMod ''B.bnp'' [] None (Some 4) 0 (Inr \<lparr>path = ''B.bnp'', priority = 4, logs = [''m2'']\<rparr>),
         PerformMerge \<lparr>NAME = ''m2'', friendly_name = ''Merger 2'', pool = Some 0\<rparr>,
         PerformMerge \<lparr>NAME = ''m1'', friendly_name = ''Merger 1'', pool = Some 0\<rparr>,
         PoolClose 0, RefreshMasterExport])
   \<and> map NAME (performed (snd (apply_queue example_env two_installs []))) = [''m1'', ''m2'', ''m1'']
   \<and> is_mod_logged M1 mod_A
   \<and> apply_queue example_env one_move []
     = (Inr (), [ChangePriority mod_A 7, PoolOpen 0, PoolClose 0, RefreshMasterExport])
   \<and> performed (snd (apply_queue example_env one_move [])) = []"
proof -
  have a: "apply_queue example_env two_installs []
     = (Inr (),
        [PoolOpen 0,
         InstallMod ''A.bnp'' [] None (Some 3) 0 (Inr \<lparr>path = ''A.bnp'', priority = 3, logs = [''m1'']\<rparr>),
         PerformMerge \<lparr>NAME = ''m1'', friendly_name = ''Merger 1'', pool = Some 0\<rparr>,
         InstallMod ''B.bnp'' [] None (Some 4) 0 (Inr \<lparr>path = ''B.bnp'', priority = 4, logs = [''m2'']\<rparr>),
         PerformMerge \<lparr>NAME = ''m2'', friendly_name = ''Merger 2'', pool = Some 0\<rparr>,
         PerformMerge \<lparr>NAME = ''m1'', friendly_name = ''Merger 1'', pool = Some 0\<rparr>,
         PoolClose 0, RefreshMasterExport])"
    by (simp add: apply_queue_def remergers_of_def run_defs example_env_def two_installs_def
        M1_def M2_def)
  have b: "apply_queue example_env one_move []
     = (Inr (), [ChangePriority mod_A 7, PoolOpen 0, PoolClose 0, RefreshMasterExport])"
    by (simp add: apply_queue_def remergers_of_def run_defs example_env_def one_move_def)
  have c: "is_mod_logged M1 mod_A"
    by (simp add: is_mod_logged_def M1_def mod_A_def)
  show ?thesis unfolding a b using c by simp
qed

section \<open>\<open>remerge\<close>\<close>

text \<open>
  C6 (as amended). When \<open>remerge\<close> returns without raising, what it did is: with no
  installed mod, remove the master directory and relink an empty one if the directory
  exists, and nothing if it does not; otherwise, for the target "all", the one call of
  \<open>install.refresh_merges\<close>, and for any other target \<open>perform_merge\<close> of the first
  registered merger with that friendly name, then the refresh of the master export.
\<close>

theorem remerge_events:
  assumes "remerge env name h = (Inr (), h')"
  shows "(get_installed_mods env h = [] \<longrightarrow>
            h' = h @ (if master_modpack_exists env h
                      then [Rmtree (master_modpack_dir env), LinkMasterMod] else []))
       \<and> (get_installed_mods env h \<noteq> [] \<longrightarrow> name = ''all'' \<longrightarrow> h' = h @ [RefreshMerges])
       \<and> (get_installed_mods env h \<noteq> [] \<longrightarrow> name \<noteq> ''all'' \<longrightarrow>
            (\<exists>m ms. filter (\<lambda>m. friendly_name m = name) (all_mergers env) = m # ms
               \<and> h' = h @ [PerformMerge m, RefreshMasterExport]))"
  using assms
  by (auto simp: remerge_def try_MergeError_def bindE_def call_def returnE_def raiseE_def
      split: if_splits option.splits list.splits sum.splits prod.splits)

text \<open>
  The theorem at a named target, at the target "all", and at an empty stack whose master
  directory exists.
\<close>

theorem remerge_events_witness:
  "remerge example_env ''Merger 2'' one_installed
     = (Inr (), one_installed @ [PerformMerge M2, RefreshMasterExport])
   \<and> get_installed_mods example_env one_installed \<noteq> []
   \<and> remerge example_env ''all'' one_installed = (Inr (), one_installed @ [RefreshMerges])
   \<and> get_installed_mods example_env [] = []
   \<and> remerge (example_env\<lparr>master_modpack_exists := (\<lambda>h. True)\<rparr>) ''all'' []
     = (Inr (), [Rmtree ''master'', LinkMasterMod])"
proof -
  have a: "remerge example_env ''Merger 2'' one_installed
     = (Inr (), one_installed @ [PerformMerge M2, RefreshMasterExport])"
    by (simp add: remerge_def run_defs example_env_def one_installed_def M1_def M2_def)
  have b: "get_installed_mods example_env one_installed \<noteq> []"
    by (simp add: example_env_def one_installed_def)
  have c: "remerge example_env ''all'' one_installed = (Inr (), one_installed @ [RefreshMerges])"
    by (simp add: remerge_def run_defs example_env_def one_installed_def)
  have d: "get_installed_mods example_env [] = []"
    by (simp add: example_env_def)
  have e: "remerge (example_env\<lparr>master_modpack_exists := (\<lambda>h. True)\<rparr>) ''all'' []
     = (Inr (), [Rmtree ''master'', LinkMasterMod])"
    by (simp add: remerge_def run_defs example_env_def)
  show ?thesis
    using a b c d e remerge_events [OF a] remerge_events [OF c] remerge_events [OF e]
    by simp
qed

text \<open>
  C6 as stated fails: with no installed mod and no master directory, \<open>remerge\<close> returns
  at once; nothing is torn down and no empty baseline is linked.
\<close>

theorem remerge_empty_no_relink:
  "get_installed_mods example_env [] = []
   \<and> remerge example_env ''all'' [] = (Inr (), [])
   \<and> LinkMasterMod \<notin> set (snd (remerge example_env ''all'' []))"
  by (simp add: remerge_def run_defs example_env_def)

section \<open>The ArgumentRelay\<close>

text \<open>
  C7. When the bind fails, the listener hands the socket to \<open>send_arg\<close> (connect, write
  the argument text, write the terminator, close) and exits the process with status 0:
  it never listens, accepts or handles a connection, whatever connections there are.
\<close>

theorem secondary_sends_and_exits:
  "\<not> bind_ok nt \<Longrightarrow>
     oneclick_listener nt conns
       = (Exited 0, [Bind, Connect, Send (argument nt), Send ''.'', CloseSock])"
  by (simp add: oneclick_listener_def send_arg_def)

text \<open>
  The theorem at a secondary with the argument \<open>bcml:install\<close>.
\<close>

theorem secondary_sends_and_exits_witness:
  "\<not> bind_ok (example_net\<lparr>bind_ok := False\<rparr>)
   \<and> oneclick_listener (example_net\<lparr>bind_ok := False\<rparr>) [[Data ''x'']]
       = (Exited 0, [Bind, Connect, Send ''bcml:install'', Send ''.'', CloseSock])"
proof -
  have a: "\<not> bind_ok (example_net\<lparr>bind_ok := False\<rparr>)" by simp
  show ?thesis
    using a secondary_sends_and_exits [OF a, of "[[Data ''x'']]"]
    by (simp add: example_net_def)
qed

lemma read_conn_chunks:
  "\<forall>r \<in> set (takeWhile is_chunk c). decodes nt r \<Longrightarrow>
     read_conn nt c = (None, map (\<lambda>r. ProcessArg (chunk_text nt r)) (takeWhile is_chunk c))"
  by (induction nt c rule: read_conn.induct) (auto split: sum.splits option.splits)

lemma read_conn_reset:
  "read_conn nt (pre @ ConnectionResetError # rest) = read_conn nt pre"
  by (induction nt pre rule: read_conn.induct) (auto split: sum.splits option.splits)

lemma accept_loop_serves:
  "\<forall>c \<in> set conns. \<forall>r \<in> set (takeWhile is_chunk c). decodes nt r \<Longrightarrow>
     accept_loop nt conns
       = (AwaitingAccept,
          concat (map (\<lambda>c. Accept # map (\<lambda>r. ProcessArg (chunk_text nt r)) (takeWhile is_chunk c)
                            @ [CloseConn]) conns))"
  by (induction conns) (auto simp: read_conn_chunks)

text \<open>
  C8. When the bind succeeds, the listener serves the connections one after the other:
  for each one it accepts, forwards the text of every chunk read before the first read
  that is empty, the lone terminator or a connection reset, closes the connection, and
  goes on to the next; after the last it is waiting in \<open>accept\<close>. A reset ends the
  reading of a connection as the end of its input would. (The chunks are taken to
  decode as UTF-8 and the handler not to raise.)
\<close>

theorem primary_serves_connections:
  assumes "bind_ok nt"
    and "\<forall>c \<in> set conns. \<forall>r \<in> set (takeWhile is_chunk c). decodes nt r"
  shows "oneclick_listener nt conns
       = (AwaitingAccept,
          Bind # Listen #
          concat (map (\<lambda>c. Accept # map (\<lambda>r. ProcessArg (chunk_text nt r)) (takeWhile is_chunk c)
                            @ [CloseConn]) conns))
     \<and> read_conn nt (pre @ ConnectionResetError # rest) = read_conn nt pre"
  using assms by (simp add: oneclick_listener_def accept_loop_serves read_conn_reset)

text \<open>
  The theorem at three connections: one ended by the terminator, one by a reset, one
  by the peer closing.
\<close>

theorem primary_serves_connections_witness:
  "bind_ok example_net
   \<and> oneclick_listener example_net three_conns
       = (AwaitingAccept,
          [Bind, Listen,
           Accept, ProcessArg ''ab'', ProcessArg ''cd'', CloseConn,
           Accept, ProcessArg ''e'', CloseConn,
           Accept, ProcessArg ''g'', CloseConn])"
proof -
  have a: "bind_ok example_net" by (simp add: example_net_def)
  have b: "\<forall>c \<in> set three_conns. \<forall>r \<in> set (takeWhile is_chunk c). decodes example_net r"
    by (simp add: three_conns_def example_net_def)
  show ?thesis
    using a primary_serves_connections [OF a b]
    by (simp add: three_conns_def example_net_def)
qed

end
